theory Spec2Isabelle
  imports Main "HOL-Library.Word"
begin

unbundle bit_operations_syntax

section \<open>Python string primitives used by markdown2html.py\<close>

text \<open>
  A Python \<open>str\<close> is a sequence of code points. The model uses \<^typ>\<open>string\<close>, whose
  characters are read as the code points U+0000 to U+00FF; \<open>isspace\<close>, \<open>lower\<close> and the
  UTF-8 encoding below are Python's on that range.
\<close>

definition isspace :: "char \<Rightarrow> bool" where
  "isspace c = ((of_char c :: nat) \<in> {9, 10, 11, 12, 13, 28, 29, 30, 31, 32, 133, 160})"

definition rstrip :: "string \<Rightarrow> string" where
  "rstrip s = rev (dropWhile isspace (rev s))"

definition lstrip :: "string \<Rightarrow> string" where
  "lstrip s = dropWhile isspace s"

definition strip :: "string \<Rightarrow> string" where
  "strip s = lstrip (rstrip s)"

definition startswith :: "string \<Rightarrow> string \<Rightarrow> bool" where
  "startswith s p = (take (length p) s = p)"

definition lower_char :: "char \<Rightarrow> char" where
  "lower_char c =
     (let n = (of_char c :: nat)
      in if (65 \<le> n \<and> n \<le> 90) \<or> (192 \<le> n \<and> n \<le> 222 \<and> n \<noteq> 215)
         then char_of (n + 32) else c)"

definition lower :: "string \<Rightarrow> string" where
  "lower s = map lower_char s"

text \<open>\<open>s.replace(c, '')\<close> for a one-character \<open>c\<close>.\<close>

definition remove_char :: "char \<Rightarrow> string \<Rightarrow> string" where
  "remove_char c s = filter (\<lambda>x. x \<noteq> c) s"

text \<open>\<open>s[:-3]\<close>: everything but the last three characters, empty when there are fewer.\<close>

definition drop_last3 :: "string \<Rightarrow> string" where
  "drop_last3 s = take (length s - 3) s"

text \<open>The decimal rendering of a non-negative integer inside an f-string.\<close>

definition digit_char :: "nat \<Rightarrow> char" where
  "digit_char d = ''0123456789'' ! d"

fun str_nat :: "nat \<Rightarrow> string" where
  "str_nat n = (if n < 10 then [digit_char n] else str_nat (n div 10) @ [digit_char (n mod 10)])"

declare str_nat.simps [simp del]

section \<open>The regular expressions\<close>

text \<open>
  \<open>re.match(r'^(#+) (.*)$', line)\<close>: one or more \<open>#\<close>, one space, then a run without
  a line feed up to the end of the string (or up to a final line feed). The result is
  the pair of groups 1 and 2.
\<close>

definition heading_match :: "string \<Rightarrow> (string \<times> string) option" where
  "heading_match line =
     (let hs = takeWhile (\<lambda>c. c = CHR ''#'') line;
          r = dropWhile (\<lambda>c. c = CHR ''#'') line
      in if hs = [] then None
         else case r of
           [] \<Rightarrow> None
         | c # t \<Rightarrow>
             (let text = (if t \<noteq> [] \<and> last t = CHR 0x0A then butlast t else t)
              in if c = CHR '' '' \<and> CHR 0x0A \<notin> set text then Some (hs, text) else None))"

text \<open>
  The lazy group \<open>(.*?)\<close> followed by a doubled closing character \<open>d\<close>: the shortest
  run without a line feed after which \<open>dd\<close> stands. The result is the group and what
  follows the closing \<open>dd\<close>.
\<close>

fun lazy_until :: "char \<Rightarrow> string \<Rightarrow> (string \<times> string) option" where
  "lazy_until d [] = None"
| "lazy_until d [c] = None"
| "lazy_until d (c # e # cs) =
     (if c = d \<and> e = d then Some ([], cs)
      else if c = CHR 0x0A then None
      else map_option (\<lambda>(g, r). (c # g, r)) (lazy_until d (e # cs)))"

text \<open>
  A match, anchored at the start of \<open>s\<close>, of \<open>oo(.*?)cc\<close> for an opening character
  \<open>o\<close> and a closing character \<open>c\<close>.
\<close>

definition match_at :: "char \<Rightarrow> char \<Rightarrow> string \<Rightarrow> (string \<times> string) option" where
  "match_at o' c s = (if startswith s [o', o'] then lazy_until c (drop 2 s) else None)"

lemma lazy_until_length:
  "lazy_until d s = Some (g, r) \<Longrightarrow> length r < length s"
proof (induction d s arbitrary: g rule: lazy_until.induct)
  case (3 d c e cs)
  then show ?case
    by (fastforce split: if_splits)
qed simp_all

lemma match_at_length:
  "match_at o' c s = Some (g, r) \<Longrightarrow> length r < length s"
  by (auto simp: match_at_def dest!: lazy_until_length split: if_splits)

text \<open>
  \<open>re.sub\<close> of the pattern \<open>dd(.*?)dd\<close> by \<open>l\<close>, group 1, \<open>r\<close>: matches are looked for
  from left to right, and the search goes on after each match.
\<close>

function re_sub :: "char \<Rightarrow> string \<Rightarrow> string \<Rightarrow> string \<Rightarrow> string" where
  "re_sub d l r [] = []"
| "re_sub d l r (c # cs) =
     (case match_at d d (c # cs) of
        Some (g, rest) \<Rightarrow> l @ g @ r @ re_sub d l r rest
      | None \<Rightarrow> c # re_sub d l r cs)"
  by pat_completeness auto
termination
  by (relation "measure (\<lambda>(d, l, r, s). length s)") (auto dest: match_at_length)

declare re_sub.simps(2) [simp del]

section \<open>format\_text\<close>

definition format_text :: "string \<Rightarrow> string" where
  "format_text text =
     (let text1 = re_sub (CHR ''*'') ''<b>'' ''</b>'' text;
          text2 = re_sub (CHR ''_'') ''<em>'' ''</em>'' text1
      in text2)"

section \<open>hashlib.md5 and str.encode\<close>

text \<open>
  \<open>content.encode()\<close> is UTF-8: a code point below 128 is one byte, one from 128 to
  255 is two bytes.
\<close>

definition encode_char :: "char \<Rightarrow> 8 word list" where
  "encode_char c =
     (let n = (of_char c :: nat)
      in if n < 128 then [of_nat n] else [of_nat (192 + n div 64), of_nat (128 + n mod 64)])"

definition encode :: "string \<Rightarrow> 8 word list" where
  "encode s = concat (map encode_char s)"

text \<open>
  \<open>hashlib.md5\<close> is the MD5 message digest of RFC 1321, on 32-bit words with wrap-around
  addition: the per-round shift amounts, the sine table, the padding to a multiple of 64
  bytes with the bit length in the last eight, and the four rounds of sixteen steps.
\<close>

definition md5_shift :: "nat list" where
  "md5_shift =
     [7, 12, 17, 22, 7, 12, 17, 22, 7, 12, 17, 22, 7, 12, 17, 22,
      5, 9, 14, 20, 5, 9, 14, 20, 5, 9, 14, 20, 5, 9, 14, 20,
      4, 11, 16, 23, 4, 11, 16, 23, 4, 11, 16, 23, 4, 11, 16, 23,
      6, 10, 15, 21, 6, 10, 15, 21, 6, 10, 15, 21, 6, 10, 15, 21]"

definition md5_K :: "32 word list" where
  "md5_K =
     [0xd76aa478, 0xe8c7b756, 0x242070db, 0xc1bdceee, 0xf57c0faf, 0x4787c62a, 0xa8304613, 0xfd469501,
      0x698098d8, 0x8b44f7af, 0xffff5bb1, 0x895cd7be, 0x6b901122, 0xfd987193, 0xa679438e, 0x49b40821,
      0xf61e2562, 0xc040b340, 0x265e5a51, 0xe9b6c7aa, 0xd62f105d, 0x02441453, 0xd8a1e681, 0xe7d3fbc8,
      0x21e1cde6, 0xc33707d6, 0xf4d50d87, 0x455a14ed, 0xa9e3e905, 0xfcefa3f8, 0x676f02d9, 0x8d2a4c8a,
      0xfffa3942, 0x8771f681, 0x6d9d6122, 0xfde5380c, 0xa4beea44, 0x4bdecfa9, 0xf6bb4b60, 0xbebfbc70,
      0x289b7ec6, 0xeaa127fa, 0xd4ef3085, 0x04881d05, 0xd9d4d039, 0xe6db99e5, 0x1fa27cf8, 0xc4ac5665,
      0xf4292244, 0x432aff97, 0xab9423a7, 0xfc93a039, 0x655b59c3, 0x8f0ccc92, 0xffeff47d, 0x85845dd1,
      0x6fa87e4f, 0xfe2ce6e0, 0xa3014314, 0x4e0811a1, 0xf7537e82, 0xbd3af235, 0x2ad7d2bb, 0xeb86d391]"

definition leftrotate :: "32 word \<Rightarrow> nat \<Rightarrow> 32 word" where
  "leftrotate x c = push_bit c x OR drop_bit (32 - c) x"

definition md5_pad :: "8 word list \<Rightarrow> 8 word list" where
  "md5_pad m =
     (let bits = (8 * length m) mod 2 ^ 64
      in m @ [0x80] @ replicate ((119 - length m mod 64) mod 64) 0
           @ map (\<lambda>i. of_nat (bits div 2 ^ (8 * i) mod 256)) [0, 1, 2, 3, 4, 5, 6, 7])"

fun le_words :: "8 word list \<Rightarrow> 32 word list" where
  "le_words (b0 # b1 # b2 # b3 # bs) =
     (ucast b0 OR push_bit 8 (ucast b1) OR push_bit 16 (ucast b2) OR push_bit 24 (ucast b3))
       # le_words bs"
| "le_words _ = []"

type_synonym md5_state = "32 word \<times> 32 word \<times> 32 word \<times> 32 word"

fun md5_step :: "32 word list \<Rightarrow> md5_state \<Rightarrow> nat \<Rightarrow> md5_state" where
  "md5_step M (A, B, C, D) i =
     (let (F, g) =
            (if i < 16 then ((B AND C) OR (NOT B AND D), i)
             else if i < 32 then ((D AND B) OR (NOT D AND C), (5 * i + 1) mod 16)
             else if i < 48 then (B XOR C XOR D, (3 * i + 5) mod 16)
             else (C XOR (B OR NOT D), (7 * i) mod 16));
          F' = F + A + md5_K ! i + M ! g
      in (D, B + leftrotate F' (md5_shift ! i), B, C))"

function md5_rounds :: "32 word list \<Rightarrow> md5_state \<Rightarrow> nat \<Rightarrow> md5_state" where
  "md5_rounds M st i = (if i < 64 then md5_rounds M (md5_step M st i) (i + 1) else st)"
  by pat_completeness auto
termination
  by (relation "measure (\<lambda>(M, st, i). 64 - i)") auto

declare md5_rounds.simps [simp del]

fun md5_chunk :: "md5_state \<Rightarrow> 32 word list \<Rightarrow> md5_state" where
  "md5_chunk (a0, b0, c0, d0) M =
     (case md5_rounds M (a0, b0, c0, d0) 0 of
        (A, B, C, D) \<Rightarrow> (a0 + A, b0 + B, c0 + C, d0 + D))"

function md5_chunks :: "md5_state \<Rightarrow> 8 word list \<Rightarrow> md5_state" where
  "md5_chunks st bs =
     (if bs = [] then st else md5_chunks (md5_chunk st (le_words (take 64 bs))) (drop 64 bs))"
  by pat_completeness auto
termination
  by (relation "measure (\<lambda>(st, bs). length bs)") auto

declare md5_chunks.simps [simp del]

definition le_bytes :: "32 word \<Rightarrow> 8 word list" where
  "le_bytes w = map (\<lambda>i. ucast (drop_bit (8 * i) w)) [0, 1, 2, 3]"

definition md5 :: "8 word list \<Rightarrow> 8 word list" where
  "md5 m =
     (case md5_chunks (0x67452301, 0xefcdab89, 0x98badcfe, 0x10325476) (md5_pad m) of
        (a, b, c, d) \<Rightarrow> le_bytes a @ le_bytes b @ le_bytes c @ le_bytes d)"

definition hex_digit :: "nat \<Rightarrow> char" where
  "hex_digit n = ''0123456789abcdef'' ! n"

definition hexdigest :: "8 word list \<Rightarrow> string" where
  "hexdigest bs = concat (map (\<lambda>b. [hex_digit (unat b div 16), hex_digit (unat b mod 16)]) bs)"

section \<open>markdown\_to\_html\<close>

record conv_state =
  html_lines :: "string list"
  in_unordered_list :: bool
  in_ordered_list :: bool

definition append_line :: "conv_state \<Rightarrow> string \<Rightarrow> conv_state" where
  "append_line st f = st\<lparr>html_lines := html_lines st @ [f]\<rparr>"

text \<open>\<open>html_lines and html_lines[-1].startswith('<p>')\<close>\<close>

definition last_is_p :: "conv_state \<Rightarrow> bool" where
  "last_is_p st = (html_lines st \<noteq> [] \<and> startswith (last (html_lines st)) ''<p>'')"

text \<open>\<open>html_lines[-1] = html_lines[-1][:-3] + tail\<close>\<close>

definition rewrite_last :: "conv_state \<Rightarrow> string \<Rightarrow> conv_state" where
  "rewrite_last st tail =
     st\<lparr>html_lines := butlast (html_lines st) @ [drop_last3 (last (html_lines st)) @ tail]\<rparr>"

text \<open>
  The body of the loop over the lines: one \<open>if\<close>/\<open>elif\<close> chain, whose first branch that
  applies is the only one taken. A branch that ends in \<open>continue\<close> and one that runs to
  the end of the chain both go on with the next line.
\<close>

definition loop_body :: "conv_state \<Rightarrow> string \<Rightarrow> conv_state" where
  "loop_body st raw =
     (let line = rstrip raw
      in case heading_match line of
           Some (hashes, text) \<Rightarrow>
             (let level = str_nat (length hashes)
              in append_line st (''<h'' @ level @ ''>'' @ text @ ''</h'' @ level @ ''>\<newline>''))
         | None \<Rightarrow>
             if startswith line ''- '' then
               (let st1 = (if \<not> in_unordered_list st
                           then (append_line st ''<ul>\<newline>'')\<lparr>in_unordered_list := True\<rparr>
                           else st)
                in append_line st1 (''<li>'' @ format_text (drop 2 line) @ ''</li>\<newline>''))
             else if in_unordered_list st \<and> \<not> startswith line ''- '' then
               (append_line st ''</ul>\<newline>'')\<lparr>in_unordered_list := False\<rparr>
             else if startswith line ''* '' then
               (let st1 = (if \<not> in_ordered_list st
                           then (append_line st ''<ol>\<newline>'')\<lparr>in_ordered_list := True\<rparr>
                           else st)
                in append_line st1 (''<li>'' @ format_text (drop 2 line) @ ''</li>\<newline>''))
             else if in_ordered_list st \<and> \<not> startswith line ''* '' then
               (append_line st ''</ol>\<newline>'')\<lparr>in_ordered_list := False\<rparr>
             else if startswith line ''[['' then
               (case match_at (CHR ''['') (CHR '']'') line of
                  Some (content, rest) \<Rightarrow>
                    append_line st (''<p>'' @ hexdigest (md5 (encode content)) @ ''</p>\<newline>'')
                | None \<Rightarrow> st)
             else if startswith line ''(('' then
               (case match_at (CHR ''('') (CHR '')'') line of
                  Some (content, rest) \<Rightarrow>
                    append_line st
                      (''<p>'' @ remove_char (CHR ''C'') (remove_char (CHR ''c'') (lower content))
                         @ ''</p>\<newline>'')
                | None \<Rightarrow> st)
             else if strip line \<noteq> [] then
               (let formatted_line = format_text line
                in if last_is_p st
                   then rewrite_last st (''<br/>\<newline>'' @ formatted_line @ ''</p>\<newline>'')
                   else append_line st (''<p>\<newline>'' @ formatted_line @ ''\<newline></p>\<newline>''))
             else if last_is_p st then rewrite_last st ''</p>\<newline>''
             else st)"

definition init_state :: conv_state where
  "init_state = \<lparr>html_lines = [], in_unordered_list = False, in_ordered_list = False\<rparr>"

text \<open>The state after the loop has run over the given lines.\<close>

definition run_lines :: "conv_state \<Rightarrow> string list \<Rightarrow> conv_state" where
  "run_lines st markdown_text = foldl loop_body st markdown_text"

text \<open>The fragments at the \<open>return\<close>: the open lists are closed after the loop.\<close>

definition close_lists :: "conv_state \<Rightarrow> string list" where
  "close_lists st =
     (let h1 = (if in_unordered_list st then html_lines st @ [''</ul>\<newline>''] else html_lines st);
          h2 = (if in_ordered_list st then h1 @ [''</ol>\<newline>''] else h1)
      in h2)"

definition final_lines :: "string list \<Rightarrow> string list" where
  "final_lines markdown_text = close_lists (run_lines init_state markdown_text)"

definition markdown_to_html :: "string list \<Rightarrow> string" where
  "markdown_to_html markdown_text = concat (final_lines markdown_text)"

section \<open>Auxiliary notions for the properties\<close>

text \<open>The four fragments that open or close a list.\<close>

definition list_tags :: "string set" where
  "list_tags = {''<ul>\<newline>'', ''</ul>\<newline>'', ''<ol>\<newline>'', ''</ol>\<newline>''}"

text \<open>
  A line that reaches the paragraph branch of the chain in the given state: no branch
  before it applies, and the line is not blank.
\<close>

definition is_paragraph_text :: "conv_state \<Rightarrow> string \<Rightarrow> bool" where
  "is_paragraph_text st raw =
     (let line = rstrip raw
      in heading_match line = None
         \<and> \<not> startswith line ''- '' \<and> \<not> in_unordered_list st
         \<and> \<not> startswith line ''* '' \<and> \<not> in_ordered_list st
         \<and> \<not> startswith line ''[['' \<and> \<not> startswith line ''(('' 
         \<and> strip line \<noteq> [])"

text \<open>
  The fragments emitted so far hold as many opening tags as closing tags of each list
  kind, plus one opening tag for a list that is still open.
\<close>

definition balanced :: "conv_state \<Rightarrow> bool" where
  "balanced st \<longleftrightarrow>
     count_list (html_lines st) ''<ul>\<newline>''
       = count_list (html_lines st) ''</ul>\<newline>'' + (if in_unordered_list st then 1 else 0)
     \<and> count_list (html_lines st) ''<ol>\<newline>''
       = count_list (html_lines st) ''</ol>\<newline>'' + (if in_ordered_list st then 1 else 0)"

section \<open>The effect of one pass through the loop body\<close>

lemma closed_p_not_tag: "t \<in> list_tags \<Longrightarrow> y @ ''</p>\<newline>'' \<noteq> t"
proof
  assume t: "t \<in> list_tags" and eq: "y @ ''</p>\<newline>'' = t"
  from eq have "rev t = rev (y @ ''</p>\<newline>'')" by simp
  with t show False by (auto simp: list_tags_def)
qed

lemma p_not_tag: "t \<in> list_tags \<Longrightarrow> startswith f ''<p>'' \<Longrightarrow> f \<noteq> t"
  by (auto simp: list_tags_def startswith_def)

lemma count_rewrite_last:
  assumes "last_is_p st" and "t \<in> list_tags"
  shows "count_list (html_lines (rewrite_last st (u @ ''</p>\<newline>''))) t = count_list (html_lines st) t"
proof -
  from assms(1) have ne: "html_lines st \<noteq> []" and sp: "startswith (last (html_lines st)) ''<p>''"
    by (simp_all add: last_is_p_def)
  have "count_list (html_lines st) t = count_list (butlast (html_lines st) @ [last (html_lines st)]) t"
    using ne by simp
  also have "\<dots> = count_list (butlast (html_lines st)) t"
    using p_not_tag [OF assms(2) sp] by simp
  finally have old: "count_list (html_lines st) t = count_list (butlast (html_lines st)) t" .
  have "(drop_last3 (last (html_lines st)) @ u) @ ''</p>\<newline>'' \<noteq> t"
    by (rule closed_p_not_tag [OF assms(2)])
  then show ?thesis
    by (simp add: rewrite_last_def old)
qed


lemma rewrite_last_flags:
  "in_unordered_list (rewrite_last st x) = in_unordered_list st"
  "in_ordered_list (rewrite_last st x) = in_ordered_list st"
  by (simp_all add: rewrite_last_def)

lemma list_tags_mem:
  "''<ul>\<newline>'' \<in> list_tags" "''</ul>\<newline>'' \<in> list_tags"
  "''<ol>\<newline>'' \<in> list_tags" "''</ol>\<newline>'' \<in> list_tags"
  by (simp_all add: list_tags_def)

text \<open>Every pass through the loop body has one of eight effects on the state.\<close>

lemma loop_body_shape:
  "(\<exists>f. f \<notin> list_tags \<and> loop_body st raw = append_line st f)
   \<or> (\<exists>f. f \<notin> list_tags \<and> \<not> in_unordered_list st
          \<and> loop_body st raw =
              append_line ((append_line st ''<ul>\<newline>'')\<lparr>in_unordered_list := True\<rparr>) f)
   \<or> (in_unordered_list st
        \<and> loop_body st raw = (append_line st ''</ul>\<newline>'')\<lparr>in_unordered_list := False\<rparr>)
   \<or> (\<exists>f. f \<notin> list_tags \<and> \<not> in_ordered_list st
          \<and> loop_body st raw =
              append_line ((append_line st ''<ol>\<newline>'')\<lparr>in_ordered_list := True\<rparr>) f)
   \<or> (in_ordered_list st
        \<and> loop_body st raw = (append_line st ''</ol>\<newline>'')\<lparr>in_ordered_list := False\<rparr>)
   \<or> (\<exists>u. last_is_p st \<and> loop_body st raw = rewrite_last st (u @ ''</p>\<newline>''))
   \<or> loop_body st raw = st"
proof -
  define line where "line = rstrip raw"
  show ?thesis
  proof (cases "heading_match line")
    case (Some p)
    obtain hs title where p: "p = (hs, title)" by (cases p)
    define f where
      "f = ''<h'' @ str_nat (length hs) @ ''>'' @ title @ ''</h'' @ str_nat (length hs) @ ''>\<newline>''"
    have "loop_body st raw = append_line st f"
      using Some p by (simp add: loop_body_def line_def f_def Let_def)
    moreover have "f \<notin> list_tags"
      by (simp add: f_def list_tags_def)
    ultimately show ?thesis by blast
  next
    case None
    define li where "li = ''<li>'' @ format_text (drop 2 line) @ ''</li>\<newline>''"
    have li: "li \<notin> list_tags" by (simp add: li_def list_tags_def)
    consider (ul_item) "startswith line ''- ''"
      | (ul_close) "\<not> startswith line ''- ''" "in_unordered_list st"
      | (ol_item) "\<not> startswith line ''- ''" "\<not> in_unordered_list st" "startswith line ''* ''"
      | (ol_close) "\<not> startswith line ''- ''" "\<not> in_unordered_list st"
          "\<not> startswith line ''* ''" "in_ordered_list st"
      | (rest) "\<not> startswith line ''- ''" "\<not> in_unordered_list st"
          "\<not> startswith line ''* ''" "\<not> in_ordered_list st"
      by blast
    then show ?thesis
    proof cases
      case ul_item
      show ?thesis
      proof (cases "in_unordered_list st")
        case True
        then have "loop_body st raw = append_line st li"
          using None ul_item by (simp add: loop_body_def line_def li_def)
        with li show ?thesis by blast
      next
        case False
        then have "loop_body st raw =
            append_line ((append_line st ''<ul>\<newline>'')\<lparr>in_unordered_list := True\<rparr>) li"
          using None ul_item by (simp add: loop_body_def line_def li_def)
        with li False show ?thesis by blast
      qed
    next
      case ul_close
      then have "loop_body st raw = (append_line st ''</ul>\<newline>'')\<lparr>in_unordered_list := False\<rparr>"
        using None by (simp add: loop_body_def line_def)
      with ul_close show ?thesis by blast
    next
      case ol_item
      show ?thesis
      proof (cases "in_ordered_list st")
        case True
        then have "loop_body st raw = append_line st li"
          using None ol_item by (simp add: loop_body_def line_def li_def)
        with li show ?thesis by blast
      next
        case False
        then have "loop_body st raw =
            append_line ((append_line st ''<ol>\<newline>'')\<lparr>in_ordered_list := True\<rparr>) li"
          using None ol_item by (simp add: loop_body_def line_def li_def)
        with li False show ?thesis by blast
      qed
    next
      case ol_close
      then have "loop_body st raw = (append_line st ''</ol>\<newline>'')\<lparr>in_ordered_list := False\<rparr>"
        using None by (simp add: loop_body_def line_def)
      with ol_close show ?thesis by blast
    next
      case rest
      note pre = None rest
      show ?thesis
      proof (cases "startswith line ''[[''")
        case True
        show ?thesis
        proof (cases "match_at (CHR ''['') (CHR '']'') line")
          case None
          then have "loop_body st raw = st"
            using pre True by (simp add: loop_body_def line_def)
          then show ?thesis by blast
        next
          case (Some m)
          obtain content r where m: "m = (content, r)" by (cases m)
          define f where "f = ''<p>'' @ hexdigest (md5 (encode content)) @ ''</p>\<newline>''"
          have "loop_body st raw = append_line st f"
            using pre True Some m by (simp add: loop_body_def line_def f_def)
          moreover have "f \<notin> list_tags" by (simp add: f_def list_tags_def)
          ultimately show ?thesis by blast
        qed
      next
        case no_hash: False
        show ?thesis
        proof (cases "startswith line ''((''")
          case True
          show ?thesis
          proof (cases "match_at (CHR ''('') (CHR '')'') line")
            case None
            then have "loop_body st raw = st"
              using pre no_hash True by (simp add: loop_body_def line_def)
            then show ?thesis by blast
          next
            case (Some m)
            obtain content r where m: "m = (content, r)" by (cases m)
            define f where
              "f = ''<p>'' @ remove_char (CHR ''C'') (remove_char (CHR ''c'') (lower content))
                     @ ''</p>\<newline>''"
            have "loop_body st raw = append_line st f"
              using pre no_hash True Some m by (simp add: loop_body_def line_def f_def)
            moreover have "f \<notin> list_tags" by (simp add: f_def list_tags_def)
            ultimately show ?thesis by blast
          qed
        next
          case no_strip: False
          note pre2 = pre no_hash no_strip
          show ?thesis
          proof (cases "strip line \<noteq> []")
            case True
            show ?thesis
            proof (cases "last_is_p st")
              case lp: True
              have "loop_body st raw =
                  rewrite_last st ((''<br/>\<newline>'' @ format_text line) @ ''</p>\<newline>'')"
                using pre2 True lp by (simp add: loop_body_def line_def)
              with lp show ?thesis by blast
            next
              case False
              define f where "f = ''<p>\<newline>'' @ format_text line @ ''\<newline></p>\<newline>''"
              have "loop_body st raw = append_line st f"
                using pre2 True False by (simp add: loop_body_def line_def f_def)
              moreover have "f \<notin> list_tags" by (simp add: f_def list_tags_def)
              ultimately show ?thesis by blast
            qed
          next
            case blank: False
            show ?thesis
            proof (cases "last_is_p st")
              case lp: True
              have "loop_body st raw = rewrite_last st ([] @ ''</p>\<newline>'')"
                using pre2 blank lp by (simp add: loop_body_def line_def)
              with lp show ?thesis by blast
            next
              case False
              have "loop_body st raw = st"
                using pre2 blank False by (simp add: loop_body_def line_def)
              then show ?thesis by blast
            qed
          qed
        qed
      qed
    qed
  qed
qed

lemma balanced_loop_body:
  assumes "balanced st"
  shows "balanced (loop_body st raw)"
  using loop_body_shape [of st raw] assms
  by (elim disjE exE conjE)
     (auto simp: balanced_def append_line_def list_tags_def count_rewrite_last list_tags_mem
        rewrite_last_flags)

lemma balanced_run_lines: "balanced st \<Longrightarrow> balanced (run_lines st ls)"
  unfolding run_lines_def
  by (induction ls arbitrary: st) (simp_all add: balanced_loop_body)

lemma balanced_init: "balanced init_state"
  by (simp add: balanced_def init_state_def)

section \<open>Branches of the loop body\<close>

lemma loop_body_paragraph:
  assumes "is_paragraph_text st raw"
  shows "loop_body st raw =
     (if last_is_p st
      then rewrite_last st (''<br/>\<newline>'' @ format_text (rstrip raw) @ ''</p>\<newline>'')
      else append_line st (''<p>\<newline>'' @ format_text (rstrip raw) @ ''\<newline></p>\<newline>''))"
  using assms by (simp add: is_paragraph_text_def loop_body_def Let_def)

lemma strip_Nil: "strip [] = []"
  by (simp add: strip_def lstrip_def rstrip_def)

lemma loop_body_blank:
  assumes "\<not> in_unordered_list st" "\<not> in_ordered_list st" "rstrip raw = []"
  shows "loop_body st raw = (if last_is_p st then rewrite_last st ''</p>\<newline>'' else st)"
proof -
  have "heading_match [] = None" "\<not> startswith [] ''- ''" "\<not> startswith [] ''* ''"
    "\<not> startswith [] ''[[''" "\<not> startswith [] ''((''"
    by (simp_all add: heading_match_def startswith_def)
  then show ?thesis
    using assms by (simp add: loop_body_def strip_Nil)
qed

lemma match_at_line:
  assumes "match_at a c line = Some m"
  shows "\<exists>t. line = a # a # t"
proof -
  from assms have "startswith line [a, a]"
    by (simp add: match_at_def split: if_splits)
  then show ?thesis
    by (cases line; cases "tl line") (auto simp: startswith_def)
qed

lemma loop_body_hash:
  assumes "\<not> in_unordered_list st" "\<not> in_ordered_list st"
    and "match_at (CHR ''['') (CHR '']'') (rstrip raw) = Some (content, rest)"
  shows "loop_body st raw = append_line st (''<p>'' @ hexdigest (md5 (encode content)) @ ''</p>\<newline>'')"
proof -
  from match_at_line [OF assms(3)] obtain t where t: "rstrip raw = CHR ''['' # CHR ''['' # t"
    by blast
  have "heading_match (rstrip raw) = None"
    by (simp add: t heading_match_def)
  moreover have "\<not> startswith (rstrip raw) ''- ''" "\<not> startswith (rstrip raw) ''* ''"
    "startswith (rstrip raw) ''[[''"
    by (simp_all add: t startswith_def)
  ultimately show ?thesis
    using assms by (simp add: loop_body_def)
qed

lemma loop_body_strip:
  assumes "\<not> in_unordered_list st" "\<not> in_ordered_list st"
    and "match_at (CHR ''('') (CHR '')'') (rstrip raw) = Some (content, rest)"
  shows "loop_body st raw =
     append_line st (''<p>'' @ remove_char (CHR ''C'') (remove_char (CHR ''c'') (lower content))
                       @ ''</p>\<newline>'')"
proof -
  from match_at_line [OF assms(3)] obtain t where t: "rstrip raw = CHR ''('' # CHR ''('' # t"
    by blast
  have "heading_match (rstrip raw) = None"
    by (simp add: t heading_match_def)
  moreover have "\<not> startswith (rstrip raw) ''- ''" "\<not> startswith (rstrip raw) ''* ''"
    "\<not> startswith (rstrip raw) ''[[''" "startswith (rstrip raw) ''((''"
    by (simp_all add: t startswith_def)
  ultimately show ?thesis
    using assms by (simp add: loop_body_def)
qed

lemma drop_last3_closed: "drop_last3 (xs @ ''</p>\<newline>'') = xs @ ''</''"
  by (simp add: drop_last3_def)

lemma rewrite_after_p:
  "rewrite_last (append_line st (''<p>'' @ body @ ''</p>\<newline>'')) tail
     = append_line st (''<p>'' @ body @ ''</'' @ tail)"
proof -
  have "drop_last3 ((''<p>'' @ body) @ ''</p>\<newline>'') = (''<p>'' @ body) @ ''</''"
    by (rule drop_last3_closed)
  then show ?thesis
    by (simp add: rewrite_last_def append_line_def)
qed

lemma last_is_p_after_p: "last_is_p (append_line st (''<p>'' @ body))"
  by (simp add: last_is_p_def append_line_def startswith_def)

lemma is_paragraph_text_append_line:
  "is_paragraph_text (append_line st f) raw = is_paragraph_text st raw"
  by (simp add: is_paragraph_text_def append_line_def)

lemma run_lines_snoc: "run_lines st (ls @ [l]) = loop_body (run_lines st ls) l"
  by (simp add: run_lines_def)

section \<open>The regular expressions on lines of a known shape\<close>


lemma lazy_until_first:
  assumes "d \<notin> set g" and "CHR 0x0A \<notin> set g"
  shows "lazy_until d (g @ d # d # rest) = Some (g, rest)"
  using assms
proof (induction g)
  case Nil
  then show ?case by simp
next
  case (Cons c g)
  obtain e cs where e: "g @ d # d # rest = e # cs"
    by (cases g) auto
  have "lazy_until d (c # e # cs) = map_option (\<lambda>(g, r). (c # g, r)) (lazy_until d (e # cs))"
    using Cons.prems by auto
  with Cons e show ?case
    by simp
qed

lemma re_sub_skip:
  assumes "d \<notin> set p"
  shows "re_sub d l r (p @ s) = p @ re_sub d l r s"
  using assms
proof (induction p)
  case Nil
  then show ?case by simp
next
  case (Cons c p)
  then have "match_at d d (c # p @ s) = None"
    by (auto simp: match_at_def startswith_def)
  with Cons show ?case
    by (simp add: re_sub.simps(2))
qed

lemma re_sub_match:
  assumes "d \<notin> set g" and "CHR 0x0A \<notin> set g"
  shows "re_sub d l r (d # d # g @ d # d # rest) = l @ g @ r @ re_sub d l r rest"
proof -
  have "match_at d d (d # d # g @ d # d # rest) = Some (g, rest)"
    using lazy_until_first [OF assms] by (simp add: match_at_def startswith_def)
  then show ?thesis
    by (simp add: re_sub.simps(2))
qed

section \<open>The digest of abc\<close>

lemma replicate_numeral: "replicate (numeral k) x = x # replicate (pred_numeral k) x"
  by (simp add: numeral_eq_Suc)

lemma md5_pad_abc:
  "md5_pad (encode ''abc'') =
     [97, 98, 99, 128, 0, 0, 0, 0, 0, 0, 0, 0, 0, 0, 0, 0, 0, 0, 0, 0, 0, 0,
      0, 0, 0, 0, 0, 0, 0, 0, 0, 0, 0, 0, 0, 0, 0, 0, 0, 0, 0, 0, 0, 0, 0, 0,
      0, 0, 0, 0, 0, 0, 0, 0, 0, 0, 24, 0, 0, 0, 0, 0, 0, 0]"
  by (simp add: md5_pad_def encode_def encode_char_def replicate_numeral)

lemma md5_abc: "hexdigest (md5 (encode ''abc'')) = ''900150983cd24fb0d6963f7d28e17f72''"
  unfolding md5_def md5_pad_abc
  by (simp add: md5_chunks.simps md5_rounds.simps md5_K_def md5_shift_def leftrotate_def
        hexdigest_def le_bytes_def hex_digit_def)

section \<open>Properties of the converter\<close>

text \<open>
  C6: for every sequence of input lines, the fragments returned hold as many \<open><ul>\<close>
  fragments as \<open></ul>\<close> fragments, and as many \<open><ol>\<close> fragments as \<open></ol>\<close>
  fragments.
\<close>

theorem list_tags_balanced:
  "count_list (final_lines ls) ''<ul>\<newline>'' = count_list (final_lines ls) ''</ul>\<newline>''
   \<and> count_list (final_lines ls) ''<ol>\<newline>'' = count_list (final_lines ls) ''</ol>\<newline>''"
  using balanced_run_lines [OF balanced_init, of ls]
  by (simp add: final_lines_def close_lists_def balanced_def Let_def)

text \<open>
  C1: after an unordered list, a line that does not start with \<open>- \<close> is said to close
  the list and then to be classified again as an ordered-list item, a command or
  paragraph text. The closing branch is one more \<open>elif\<close> of the chain, so the line that
  closes a list is consumed by the closing alone: the paragraph for \<open>text\<close> is never
  emitted, for either list kind, and a \<open>* \<close> line that closes an unordered list opens
  no ordered list.
\<close>

theorem list_close_swallows_line:
  "markdown_to_html [''- a'', ''- b'', ''text'']
     = ''<ul>\<newline><li>a</li>\<newline><li>b</li>\<newline></ul>\<newline>''
   \<and> markdown_to_html [''* a'', ''* b'', ''text'']
     = ''<ol>\<newline><li>a</li>\<newline><li>b</li>\<newline></ol>\<newline>''
   \<and> markdown_to_html [''- a'', ''* b'']
     = ''<ul>\<newline><li>a</li>\<newline></ul>\<newline>''"
  by code_simp

text \<open>
  C2: a line that starts with \<open>[[\<close> without a closing \<open>]]\<close>, or with \<open>((\<close> without a
  closing \<open>))\<close>, is said to be handled as paragraph text. The paragraph branch is an
  \<open>elif\<close> after the command branches, so such a line leaves no trace in the output.
\<close>

theorem unmatched_command_dropped:
  "markdown_to_html [''[[abc''] = []
   \<and> markdown_to_html [''((abc''] = []
   \<and> markdown_to_html [''one'', ''[[abc'', ''two'']
     = ''<p>\<newline>one\<newline></<br/>\<newline>two</p>\<newline>''"
  by code_simp

text \<open>
  C3: at most one of the two list flags is said to be set at any time. A \<open>- \<close> line is
  tested before the ordered-list closing branch, so after \<open>* a\<close> the line \<open>- b\<close> opens
  an unordered list inside the open ordered list and both flags are set.
\<close>

theorem both_lists_open:
  "in_unordered_list (run_lines init_state [''* a'', ''- b''])
   \<and> in_ordered_list (run_lines init_state [''* a'', ''- b''])
   \<and> final_lines [''* a'', ''- b'']
     = [''<ol>\<newline>'', ''<li>a</li>\<newline>'', ''<ul>\<newline>'', ''<li>b</li>\<newline>'',
        ''</ul>\<newline>'', ''</ol>\<newline>'']"
  by code_simp

text \<open>
  C5: two consecutive lines of paragraph text are said to be joined by a line break
  inside one \<open><p>\<close> block, and a blank line to end the block. The slice \<open>[:-3]\<close> removes
  three of the five characters of the closing tag, so the first line is followed by a
  stray \<open></\<close>, a blank line leaves \<open></</p>\<close>, and the line after the blank line is
  still merged into the same fragment.
\<close>

theorem paragraph_merge_tail:
  "markdown_to_html [''a'', ''b''] = ''<p>\<newline>a\<newline></<br/>\<newline>b</p>\<newline>''
   \<and> markdown_to_html [''a'', ''''] = ''<p>\<newline>a\<newline></</p>\<newline>''
   \<and> markdown_to_html [''a'', '''', ''c'']
     = ''<p>\<newline>a\<newline></</<br/>\<newline>c</p>\<newline>''"
  by code_simp

text \<open>
  C4, as stated: a document that ends on a line of paragraph text is said to leave its
  last paragraph without the closing \<open></p>\<close>. The paragraph branch writes the closing tag
  together with the opening one, so the one-line document \<open>text\<close> already ends with it.
\<close>

theorem final_paragraph_closed_example:
  "markdown_to_html [''text''] = ''<p>\<newline>text\<newline></p>\<newline>''"
  by code_simp

text \<open>
  C4, amended: when the last line of a document reaches the paragraph branch, nothing is
  appended after the loop, and the last fragment, hence the whole output, ends with the
  closing tag \<open></p>\<close> and a line feed. The end of the document adds closing tags for open
  lists only; a paragraph fragment carries its closing tag from the moment it is written.
\<close>

theorem final_paragraph_closed:
  assumes "is_paragraph_text (run_lines init_state ls) l"
  shows "final_lines (ls @ [l]) = html_lines (run_lines init_state (ls @ [l]))
    \<and> (\<exists>pre. last (final_lines (ls @ [l])) = pre @ ''</p>\<newline>'')
    \<and> (\<exists>pre. markdown_to_html (ls @ [l]) = pre @ ''</p>\<newline>'')"
proof -
  define st where "st = run_lines init_state ls"
  define st' where "st' = loop_body st l"
  have para: "is_paragraph_text st l"
    using assms by (simp add: st_def)
  then have flags: "\<not> in_unordered_list st" "\<not> in_ordered_list st"
    by (simp_all add: is_paragraph_text_def Let_def)
  obtain ys f where shape: "html_lines st' = ys @ [f @ ''</p>\<newline>'']"
    and flags': "\<not> in_unordered_list st'" "\<not> in_ordered_list st'"
  proof (cases "last_is_p st")
    case True
    then have "st' = rewrite_last st ((''<br/>\<newline>'' @ format_text (rstrip l)) @ ''</p>\<newline>'')"
      using loop_body_paragraph [OF para] by (simp add: st'_def)
    then have "html_lines st' =
        butlast (html_lines st)
          @ [(drop_last3 (last (html_lines st)) @ ''<br/>\<newline>'' @ format_text (rstrip l)) @ ''</p>\<newline>'']"
      and "\<not> in_unordered_list st'" "\<not> in_ordered_list st'"
      using flags by (simp_all add: rewrite_last_def)
    then show ?thesis by (rule that)
  next
    case False
    then have "st' = append_line st ((''<p>\<newline>'' @ format_text (rstrip l) @ ''\<newline>'') @ ''</p>\<newline>'')"
      using loop_body_paragraph [OF para] by (simp add: st'_def)
    then have "html_lines st' =
        html_lines st @ [(''<p>\<newline>'' @ format_text (rstrip l) @ ''\<newline>'') @ ''</p>\<newline>'']"
      and "\<not> in_unordered_list st'" "\<not> in_ordered_list st'"
      using flags by (simp_all add: append_line_def)
    then show ?thesis by (rule that)
  qed
  have run: "run_lines init_state (ls @ [l]) = st'"
    by (simp add: run_lines_snoc st'_def st_def)
  have fin: "final_lines (ls @ [l]) = html_lines st'"
    using flags' by (simp add: final_lines_def close_lists_def run)
  have "last (final_lines (ls @ [l])) = f @ ''</p>\<newline>''"
    by (simp add: fin shape)
  moreover have "markdown_to_html (ls @ [l]) = (concat ys @ f) @ ''</p>\<newline>''"
    by (simp add: markdown_to_html_def fin shape)
  ultimately show ?thesis
    using fin run by blast
qed

text \<open>The amended C4 at the document \<open># Title\<close>, \<open>first\<close>, \<open>second\<close>.\<close>

theorem final_paragraph_closed_witness:
  "is_paragraph_text (run_lines init_state [''# Title'', ''first'']) ''second''
   \<and> final_lines ([''# Title'', ''first''] @ [''second''])
       = html_lines (run_lines init_state ([''# Title'', ''first''] @ [''second'']))
   \<and> (\<exists>pre. last (final_lines ([''# Title'', ''first''] @ [''second''])) = pre @ ''</p>\<newline>'')
   \<and> (\<exists>pre. markdown_to_html ([''# Title'', ''first''] @ [''second'']) = pre @ ''</p>\<newline>'')"
proof -
  have h: "is_paragraph_text (run_lines init_state [''# Title'', ''first'']) ''second''"
    by code_simp
  from final_paragraph_closed [OF h] h show ?thesis
    by blast
qed



text \<open>
  C8: the one-line document \<open>[[abc]]\<close> yields one paragraph whose content is the MD5
  digest of the three bytes \<open>abc\<close>, written as 32 lower-case hexadecimal digits.
\<close>

theorem hash_command_abc:
  "markdown_to_html [''[[abc]]''] = ''<p>900150983cd24fb0d6963f7d28e17f72</p>\<newline>''
   \<and> length ''900150983cd24fb0d6963f7d28e17f72'' = 32"
proof -
  have r: "rstrip ''[[abc]]'' = ''[[abc]]''"
    by code_simp
  have h: "heading_match ''[[abc]]'' = None"
    by code_simp
  have s: "\<not> startswith ''[[abc]]'' ''- ''" "\<not> startswith ''[[abc]]'' ''* ''"
    "startswith ''[[abc]]'' ''[[''"
    by (simp_all add: startswith_def)
  have m: "match_at (CHR ''['') (CHR '']'') ''[[abc]]'' = Some (''abc'', [])"
    by code_simp
  have "loop_body init_state ''[[abc]]''
          = append_line init_state (''<p>'' @ hexdigest (md5 (encode ''abc'')) @ ''</p>\<newline>'')"
    by (simp add: loop_body_def r h s m init_state_def)
  then show ?thesis
    by (simp add: markdown_to_html_def final_lines_def close_lists_def run_lines_def md5_abc
          append_line_def init_state_def)
qed

text \<open>
  C9: \<open>format_text\<close> rewrites the bold markers over the whole line and then the emphasis
  markers over the result. Each rewriting is leftmost and lazy: text before the first
  doubled marker is kept, the span runs to the first closing doubled marker, and the
  search goes on after it. The document \<open>**bold** and __em__\<close> yields a paragraph that
  contains \<open><b>bold</b> and <em>em</em>\<close>.
\<close>

theorem format_text_bold_then_emphasis:
  "format_text t = re_sub (CHR ''_'') ''<em>'' ''</em>'' (re_sub (CHR ''*'') ''<b>'' ''</b>'' t)
   \<and> (d \<notin> set p \<and> d \<notin> set g \<and> CHR 0x0A \<notin> set g \<longrightarrow>
        re_sub d l r (p @ [d, d] @ g @ [d, d] @ rest) = p @ l @ g @ r @ re_sub d l r rest)
   \<and> markdown_to_html [''**bold** and __em__'']
       = ''<p>\<newline><b>bold</b> and <em>em</em>\<newline></p>\<newline>''"
proof -
  have "format_text t = re_sub (CHR ''_'') ''<em>'' ''</em>'' (re_sub (CHR ''*'') ''<b>'' ''</b>'' t)"
    by (simp add: format_text_def)
  moreover have "re_sub d l r (p @ [d, d] @ g @ [d, d] @ rest) = p @ l @ g @ r @ re_sub d l r rest"
    if "d \<notin> set p" "d \<notin> set g" "CHR 0x0A \<notin> set g"
    using that by (simp add: re_sub_skip re_sub_match)
  moreover have "markdown_to_html [''**bold** and __em__'']
       = ''<p>\<newline><b>bold</b> and <em>em</em>\<newline></p>\<newline>''"
    by code_simp
  ultimately show ?thesis
    by blast
qed

text \<open>C9 at a line with two bold spans and one emphasis span.\<close>

theorem format_text_bold_then_emphasis_witness:
  "format_text ''x **a** **b** __c__''
     = re_sub (CHR ''_'') ''<em>'' ''</em>'' (re_sub (CHR ''*'') ''<b>'' ''</b>'' ''x **a** **b** __c__'')
   \<and> CHR ''*'' \<notin> set ''x '' \<and> CHR ''*'' \<notin> set ''a'' \<and> CHR 0x0A \<notin> set ''a''
   \<and> re_sub (CHR ''*'') ''<b>'' ''</b>'' (''x '' @ [CHR ''*'', CHR ''*''] @ ''a'' @ [CHR ''*'', CHR ''*''] @ '' **b** __c__'')
       = ''x '' @ ''<b>'' @ ''a'' @ ''</b>'' @ re_sub (CHR ''*'') ''<b>'' ''</b>'' '' **b** __c__''
   \<and> format_text ''x **a** **b** __c__'' = ''x <b>a</b> <b>b</b> <em>c</em>''
   \<and> markdown_to_html [''**bold** and __em__'']
       = ''<p>\<newline><b>bold</b> and <em>em</em>\<newline></p>\<newline>''"
proof -
  note c = format_text_bold_then_emphasis [of "''x **a** **b** __c__''" "CHR ''*''" "''x ''" "''a''"
      "''<b>''" "''</b>''" "'' **b** __c__''"]
  have h: "CHR ''*'' \<notin> set ''x '' \<and> CHR ''*'' \<notin> set ''a'' \<and> CHR 0x0A \<notin> set ''a''"
    by simp
  have e: "format_text ''x **a** **b** __c__'' = ''x <b>a</b> <b>b</b> <em>c</em>''"
    by code_simp
  from c [THEN conjunct1] c [THEN conjunct2, THEN conjunct1, THEN mp, OF h]
    c [THEN conjunct2, THEN conjunct2] h e
  show ?thesis
    by blast
qed

text \<open>
  C10: the fragment written for a hash command or a letter-strip command starts with
  \<open><p>\<close>, so the test for an open paragraph accepts it. A line of paragraph text that
  follows the command is merged into the command's fragment, whose last three characters
  are replaced by a line break, the formatted line and a closing tag, and no new fragment
  is opened; a blank line that follows the command rewrites the last three characters of
  the fragment as well.
\<close>

theorem command_fragment_rewritten:
  assumes "\<not> in_unordered_list st" and "\<not> in_ordered_list st"
    and "(match_at (CHR ''['') (CHR '']'') (rstrip cmd) = Some (content, rest)
            \<and> body = hexdigest (md5 (encode content)))
         \<or> (match_at (CHR ''('') (CHR '')'') (rstrip cmd) = Some (content, rest)
            \<and> body = remove_char (CHR ''C'') (remove_char (CHR ''c'') (lower content)))"
  shows "loop_body st cmd = append_line st (''<p>'' @ body @ ''</p>\<newline>'')
    \<and> (is_paragraph_text st t \<longrightarrow>
         loop_body (loop_body st cmd) t
           = append_line st
               (''<p>'' @ body @ ''</'' @ ''<br/>\<newline>'' @ format_text (rstrip t) @ ''</p>\<newline>''))
    \<and> (rstrip b = [] \<longrightarrow>
         loop_body (loop_body st cmd) b = append_line st (''<p>'' @ body @ ''</'' @ ''</p>\<newline>''))"
proof -
  define st1 where "st1 = append_line st (''<p>'' @ body @ ''</p>\<newline>'')"
  have cmd: "loop_body st cmd = st1"
    using assms loop_body_hash [of st cmd content rest] loop_body_strip [of st cmd content rest]
    by (auto simp: st1_def)
  have flags: "\<not> in_unordered_list st1" "\<not> in_ordered_list st1"
    using assms(1,2) by (simp_all add: st1_def append_line_def)
  have lp: "last_is_p st1"
    unfolding st1_def by (rule last_is_p_after_p)
  have para: "loop_body st1 t =
      append_line st (''<p>'' @ body @ ''</'' @ ''<br/>\<newline>'' @ format_text (rstrip t) @ ''</p>\<newline>'')"
    if "is_paragraph_text st t"
  proof -
    from that have "is_paragraph_text st1 t"
      by (simp add: st1_def is_paragraph_text_append_line)
    then have "loop_body st1 t =
        rewrite_last st1 (''<br/>\<newline>'' @ format_text (rstrip t) @ ''</p>\<newline>'')"
      using lp by (simp only: loop_body_paragraph if_True)
    then show ?thesis
      unfolding st1_def by (simp only: rewrite_after_p)
  qed
  have blank: "loop_body st1 b = append_line st (''<p>'' @ body @ ''</'' @ ''</p>\<newline>'')"
    if "rstrip b = []"
  proof -
    have "loop_body st1 b = rewrite_last st1 ''</p>\<newline>''"
      using loop_body_blank [OF flags that] lp by simp
    then show ?thesis
      unfolding st1_def by (simp only: rewrite_after_p)
  qed
  show ?thesis
    using cmd para blank by (simp add: st1_def)
qed

text \<open>C10 at the command \<open>((Cocoa))\<close> followed by \<open>text\<close> or by an empty line.\<close>

theorem command_fragment_rewritten_witness:
  "\<not> in_unordered_list init_state \<and> \<not> in_ordered_list init_state
   \<and> match_at (CHR ''('') (CHR '')'') (rstrip ''((Cocoa))'') = Some (''Cocoa'', [])
   \<and> is_paragraph_text init_state ''text'' \<and> rstrip '''' = []
   \<and> loop_body init_state ''((Cocoa))'' = append_line init_state ''<p>ooa</p>\<newline>''
   \<and> loop_body (loop_body init_state ''((Cocoa))'') ''text''
       = append_line init_state ''<p>ooa</<br/>\<newline>text</p>\<newline>''
   \<and> loop_body (loop_body init_state ''((Cocoa))'') ''''
       = append_line init_state ''<p>ooa</</p>\<newline>''"
proof -
  have f: "\<not> in_unordered_list init_state" "\<not> in_ordered_list init_state"
    by (simp_all add: init_state_def)
  have m: "match_at (CHR ''('') (CHR '')'') (rstrip ''((Cocoa))'') = Some (''Cocoa'', [])"
    by code_simp
  have b: "remove_char (CHR ''C'') (remove_char (CHR ''c'') (lower ''Cocoa'')) = ''ooa''"
    by code_simp
  have p: "is_paragraph_text init_state ''text''"
    by code_simp
  have r: "rstrip '''' = []"
    by code_simp
  have r': "rstrip ''text'' = ''text''"
    by code_simp
  have ft: "format_text ''text'' = ''text''"
    by code_simp
  have h: "(match_at (CHR ''['') (CHR '']'') (rstrip ''((Cocoa))'') = Some (''Cocoa'', [])
              \<and> ''ooa'' = hexdigest (md5 (encode ''Cocoa'')))
           \<or> (match_at (CHR ''('') (CHR '')'') (rstrip ''((Cocoa))'') = Some (''Cocoa'', [])
              \<and> ''ooa'' = remove_char (CHR ''C'') (remove_char (CHR ''c'') (lower ''Cocoa'')))"
    using m b by simp
  note c = command_fragment_rewritten [OF f h, of "''text''" "''''"]
  from c [THEN conjunct1] have c1: "loop_body init_state ''((Cocoa))'' = append_line init_state ''<p>ooa</p>\<newline>''"
    by simp
  from c [THEN conjunct2, THEN conjunct1, THEN mp, OF p] have c2: "loop_body (loop_body init_state ''((Cocoa))'') ''text''
       = append_line init_state ''<p>ooa</<br/>\<newline>text</p>\<newline>''"
    by (simp add: r' ft)
  from c [THEN conjunct2, THEN conjunct2, THEN mp, OF r] have c3: "loop_body (loop_body init_state ''((Cocoa))'') ''''
       = append_line init_state ''<p>ooa</</p>\<newline>''"
    by simp
  show ?thesis
    using f m p r c1 c2 c3 by blast
qed

end
